theory Spec2Isabelle
  imports Complex_Main "HOL-Library.AList" "HOL-Library.Char_ord"
begin

section \<open>Text\<close>

text \<open>
  Python strings are modelled as \<^typ>\<open>string\<close>. The development covers ASCII text, which
  is what FASTA files and motif files hold: one \<^typ>\<open>char\<close> is one Python character, and
  \<open>str.upper\<close> maps \<open>a\<close>..\<open>z\<close> to \<open>A\<close>..\<open>Z\<close> and leaves every other character alone.
\<close>

definition upper_char :: "char \<Rightarrow> char" where
  "upper_char c =
     (case map_of (zip ''abcdefghijklmnopqrstuvwxyz'' ''ABCDEFGHIJKLMNOPQRSTUVWXYZ'') c of
        Some u \<Rightarrow> u
      | None \<Rightarrow> c)"

definition upper :: "string \<Rightarrow> string" where
  "upper s = map upper_char s"

text \<open>\<open>str.strip()\<close>: the ASCII white space of \<open>str.isspace\<close> is removed at both ends.\<close>

definition is_space :: "char \<Rightarrow> bool" where
  "is_space c = (let n = (of_char c :: nat) in (9 \<le> n \<and> n \<le> 13) \<or> (28 \<le> n \<and> n \<le> 32))"

definition strip :: "string \<Rightarrow> string" where
  "strip s = rev (dropWhile is_space (rev (dropWhile is_space s)))"

section \<open>The fragment of Python's \<open>re\<close> module that the program uses\<close>

text \<open>
  The program calls \<open>re.finditer\<close> with two kinds of pattern: the constant \<open>[A-Z]\<close>, and
  \<open>(?=P)\<close> where \<open>P\<close> is the \<open>re_seq\<close> of a motif. A pattern is parsed as Python's
  \<open>sre_parse\<close> does, into literals and character sets (\<open>IN\<close>), possibly under one
  lookahead assertion (\<open>ASSERT\<close>). The fragment is: a sequence of ordinary characters and
  of sets \<open>[...]\<close> of ordinary characters and ranges, alone or wrapped in one \<open>(?=...)\<close>.
  A pattern with any other use of a special character is outside the fragment and
  \<open>re_compile\<close> gives \<open>None\<close> for it: Python either rejects such a pattern with
  \<open>re.error\<close> or gives it a meaning (repetition, alternation, groups) that is not
  modelled here.
\<close>

datatype set_item = Literal_in char | Range char char

datatype re_item = Literal char | In "set_item list"

datatype pattern = Items "re_item list" | Assert "re_item list"

definition re_special :: string where
  "re_special = [CHR ''.'', CHR ''^'', CHR ''$'', CHR ''*'', CHR ''+'', CHR ''?'', CHR ''{'',
                 CHR ''}'', CHR ''['', CHR '']'', CHR 0x5C, CHR ''|'', CHR ''('', CHR '')'']"

definition set_special :: string where
  "set_special = [CHR ''['', CHR '']'', CHR 0x5C, CHR ''^'', CHR ''-'']"

fun parse_items :: "string \<Rightarrow> re_item list option"
  and parse_set :: "set_item list \<Rightarrow> string \<Rightarrow> re_item list option" where
  "parse_items [] = Some []"
| "parse_items (c # cs) =
     (if c = CHR ''['' then parse_set [] cs
      else if c \<in> set re_special then None
      else map_option (Cons (Literal c)) (parse_items cs))"
| "parse_set acc [] = None"
| "parse_set acc (c # cs) =
     (if c = CHR '']'' then
        (if acc = [] then None else map_option (Cons (In acc)) (parse_items cs))
      else if c \<in> set set_special then None
      else (case cs of
              d # e # rest \<Rightarrow>
                if d = CHR ''-'' \<and> e \<notin> set set_special
                then (if c \<le> e then parse_set (acc @ [Range c e]) rest else None)
                else parse_set (acc @ [Literal_in c]) cs
            | _ \<Rightarrow> parse_set (acc @ [Literal_in c]) cs))"

definition re_compile :: "string \<Rightarrow> pattern option" where
  "re_compile p =
     (if take 3 p = ''(?='' \<and> 4 \<le> length p \<and> last p = CHR '')''
      then map_option Assert (parse_items (butlast (drop 3 p)))
      else map_option Items (parse_items p))"

fun set_item_match :: "set_item \<Rightarrow> char \<Rightarrow> bool" where
  "set_item_match (Literal_in a) c = (c = a)"
| "set_item_match (Range lo hi) c = (lo \<le> c \<and> c \<le> hi)"

fun item_match :: "re_item \<Rightarrow> char \<Rightarrow> bool" where
  "item_match (Literal a) c = (c = a)"
| "item_match (In items) c = list_ex (\<lambda>i. set_item_match i c) items"

text \<open>Every item consumes one character; \<open>match_items\<close> matches at the head of the text.\<close>

fun match_items :: "re_item list \<Rightarrow> string \<Rightarrow> bool" where
  "match_items [] s = True"
| "match_items (i # is) [] = False"
| "match_items (i # is) (c # cs) = (item_match i c \<and> match_items is cs)"

text \<open>
  \<open>re.finditer\<close> scans the text from left to right and yields the non-overlapping matches.
  Only \<open>match.start()\<close> is read by the program, so a match is its start offset (0-based).
  A lookahead assertion matches the empty string, so the scan tries every offset from 0 to
  the length of the text. A sequence of \<open>k\<close> items matches \<open>k\<close> characters, and the scan
  resumes after them (\<open>skip\<close> counts the characters still to pass over).
\<close>

fun scan_assert :: "re_item list \<Rightarrow> nat \<Rightarrow> string \<Rightarrow> nat list" where
  "scan_assert its i [] = (if match_items its [] then [i] else [])"
| "scan_assert its i (c # cs) =
     (if match_items its (c # cs) then [i] else []) @ scan_assert its (Suc i) cs"

fun scan_items :: "re_item list \<Rightarrow> nat \<Rightarrow> nat \<Rightarrow> string \<Rightarrow> nat list" where
  "scan_items its skip i [] = (if skip = 0 \<and> match_items its [] then [i] else [])"
| "scan_items its skip i (c # cs) =
     (if 0 < skip then scan_items its (skip - 1) (Suc i) cs
      else if match_items its (c # cs) then i # scan_items its (length its - 1) (Suc i) cs
      else scan_items its 0 (Suc i) cs)"

fun finditer_compiled :: "pattern \<Rightarrow> string \<Rightarrow> nat list" where
  "finditer_compiled (Assert its) s = scan_assert its 0 s"
| "finditer_compiled (Items its) s = scan_items its 0 0 s"

definition finditer :: "string \<Rightarrow> string \<Rightarrow> nat list option" where
  "finditer p s = map_option (\<lambda>r. finditer_compiled r s) (re_compile p)"

section \<open>Nucleotide dictionary\<close>

definition ambig_nucleotides :: "char \<rightharpoonup> string" where
  "ambig_nucleotides = map_of
     [(CHR ''N'', ''[NAGCTU]''),
      (CHR ''R'', ''[RAG]''),
      (CHR ''Y'', ''[YTCU]''),
      (CHR ''K'', ''[KGTU]''),
      (CHR ''M'', ''[MAC]''),
      (CHR ''S'', ''[SGC]''),
      (CHR ''W'', ''[WATU]''),
      (CHR ''B'', ''[BCGTU]''),
      (CHR ''D'', ''[DAGTU]''),
      (CHR ''H'', ''[HACG]''),
      (CHR ''V'', ''[VACG]''),
      (CHR ''U'', ''[TU]''),
      (CHR ''T'', ''[TU]'')]"

section \<open>Class \<open>Motif\<close>\<close>

text \<open>
  \<open>Motif\<close> defines neither \<open>__eq__\<close> nor \<open>__hash__\<close>: two motif objects are equal, and are
  the same dictionary key, only when they are the same object. The field \<open>oid\<close> is the
  identity of the object; objects built by different constructor calls have different
  \<open>oid\<close>s, so equality of records is identity of objects.
\<close>

record motif =
  oid :: nat
  seq :: string
  length_m :: nat
  re_seq :: string

fun modular_loop :: "string \<Rightarrow> string \<Rightarrow> string" where
  "modular_loop new_motif [] = new_motif"
| "modular_loop new_motif (c # cs) =
     (case ambig_nucleotides c of
        Some r \<Rightarrow> modular_loop (new_motif @ r) cs
      | None \<Rightarrow> modular_loop (new_motif @ [c]) cs)"

definition modular_motif :: "string \<Rightarrow> string" where
  "modular_motif motif_seq = modular_loop [] motif_seq"

definition Motif :: "nat \<Rightarrow> string \<Rightarrow> motif" where
  "Motif ident motif_seq =
     \<lparr>oid = ident, seq = motif_seq, length_m = length motif_seq,
      re_seq = modular_motif motif_seq\<rparr>"

text \<open>
  \<open>parse_motif_txt\<close> on the lines of the motif file: every line that is not blank gives one
  new motif object, of the stripped line in upper case. \<open>next_id\<close> is the first free
  identity.
\<close>

fun parse_motif_txt :: "nat \<Rightarrow> string list \<Rightarrow> motif list" where
  "parse_motif_txt next_id [] = []"
| "parse_motif_txt next_id (line # lines) =
     (if strip line \<noteq> [] then Motif next_id (upper (strip line)) # parse_motif_txt (Suc next_id) lines
      else parse_motif_txt next_id lines)"

section \<open>Class \<open>Transcript\<close>\<close>

record transcript =
  readname :: string
  sequence :: string
  exons :: "nat list"
  length_t :: nat

text \<open>
  \<open>exons\<close> is \<open>match.start() + 1\<close> for every match of \<open>re.finditer(r'[A-Z]', sequence)\<close>;
  \<open>exon_pattern\<close> is that pattern compiled (lemma \<open>compile_exon_pattern\<close>).
\<close>

definition exon_pattern :: pattern where
  "exon_pattern = Items [In [Range (CHR ''A'') (CHR ''Z'')]]"

definition Transcript :: "string \<Rightarrow> string \<Rightarrow> transcript" where
  "Transcript rname sequ =
     \<lparr>readname = rname, sequence = sequ,
      exons = map (\<lambda>start. start + 1) (finditer_compiled exon_pattern sequ),
      length_t = length sequ\<rparr>"

text \<open>
  \<open>find_motifs\<close> adds two attributes to the transcript object: \<open>motif_locations\<close>, a
  dictionary from motif objects to position lists, and \<open>position_motif\<close>, a dictionary from
  positions to label lists. A Python dictionary keeps its keys in the order of their first
  insertion and assigning to a key that is present replaces its value in place; that is
  \<^const>\<open>AList.update\<close> on an association list.
\<close>

record annotated = transcript +
  motif_locations :: "(motif \<times> nat list) list"
  position_motif :: "(nat \<times> string list) list"

text \<open>
  Lines 138 and 139: for every match, the positions \<open>start + 1\<close> up to
  \<open>start + motif.length\<close>, all in one list.
\<close>

definition motif_ranges :: "motif \<Rightarrow> nat list \<Rightarrow> nat list" where
  "motif_ranges m starts = concat (map (\<lambda>start. [start + 1 ..< start + length_m m + 1]) starts)"

fun locations_loop ::
  "string \<Rightarrow> motif list \<Rightarrow> (motif \<times> nat list) list \<Rightarrow> (motif \<times> nat list) list option" where
  "locations_loop sequ [] locs = Some locs"
| "locations_loop sequ (m # ms) locs =
     (case finditer (''(?='' @ re_seq m @ '')'') (upper sequ) of
        None \<Rightarrow> None
      | Some starts \<Rightarrow> locations_loop sequ ms (AList.update m (motif_ranges m starts) locs))"

text \<open>
  Line 145 tests \<open>motif not in self.position_motif[position]\<close>: a motif object is looked
  for in a list of strings. \<open>in\<close> compares with \<open>==\<close>; a \<open>Motif\<close> has no \<open>__eq__\<close>, so a
  motif and a string are never equal.
\<close>

definition motif_eq_str :: "motif \<Rightarrow> string \<Rightarrow> bool" where
  "motif_eq_str m label = False"

definition motif_in :: "motif \<Rightarrow> string list \<Rightarrow> bool" where
  "motif_in m labels = list_ex (motif_eq_str m) labels"

text \<open>The inner loop of lines 144 to 146, over the entries of \<open>motif_locations\<close> in key order.\<close>

fun labels_loop :: "nat \<Rightarrow> (motif \<times> nat list) list \<Rightarrow> string list \<Rightarrow> string list" where
  "labels_loop position [] labels = labels"
| "labels_loop position ((m, locs) # rest) labels =
     labels_loop position rest
       (if position \<in> set locs \<and> \<not> motif_in m labels then labels @ [seq m] else labels)"

fun positions_loop ::
  "(motif \<times> nat list) list \<Rightarrow> nat list \<Rightarrow> (nat \<times> string list) list \<Rightarrow> (nat \<times> string list) list" where
  "positions_loop locs [] pm = pm"
| "positions_loop locs (position # ps) pm =
     positions_loop locs ps (AList.update position (labels_loop position locs []) pm)"

definition find_motifs :: "transcript \<Rightarrow> motif list \<Rightarrow> annotated option" where
  "find_motifs self motifs_list =
     (case locations_loop (sequence self) motifs_list [] of
        None \<Rightarrow> None
      | Some locs \<Rightarrow>
          Some (transcript.extend self
                  (annotated.fields locs
                     (positions_loop locs [1 ..< length (sequence self) + 1] []))))"

section \<open>Class \<open>MotifsImage\<close>\<close>

datatype error = ValueError | IndexError

text \<open>
  \<open>max(xs, key=f)\<close> raises \<open>ValueError\<close> on an empty list and returns the first element
  with the largest key otherwise.
\<close>

fun max_loop :: "('a \<Rightarrow> nat) \<Rightarrow> 'a \<Rightarrow> 'a list \<Rightarrow> 'a" where
  "max_loop key best [] = best"
| "max_loop key best (x # xs) = max_loop key (if key best < key x then x else best) xs"

definition max_key :: "('a \<Rightarrow> nat) \<Rightarrow> 'a list \<Rightarrow> error + 'a" where
  "max_key key xs = (case xs of [] \<Rightarrow> Inl ValueError | x # rest \<Rightarrow> Inr (max_loop key x rest))"

text \<open>
  \<open>round(n / d)\<close> for integers \<open>n \<ge> 0\<close> and \<open>d \<in> {2, 4}\<close>: Python divides in floating point
  and rounds the quotient to the nearest integer, a half to the even neighbour. The
  floating-point quotient is the exact one as long as \<open>n < 2 ^ 53\<close>, which holds for every
  sequence that fits in memory; the model is the exact rounding.
\<close>

definition round_div :: "int \<Rightarrow> int \<Rightarrow> int" where
  "round_div n d =
     (let q = n div d; r = n mod d
      in if 2 * r < d then q else if d < 2 * r then q + 1 else if even q then q else q + 1)"

text \<open>\<open>str(n)\<close> of an integer: its decimal digits.\<close>

fun str_nat :: "nat \<Rightarrow> string" where
  "str_nat n = (if n < 10 then [''0123456789'' ! n] else str_nat (n div 10) @ [''0123456789'' ! (n mod 10)])"

declare str_nat.simps [simp del]

definition str_int :: "int \<Rightarrow> string" where
  "str_int i = (if i < 0 then CHR ''-'' # str_nat (nat (- i)) else str_nat (nat i))"

type_synonym color = "rat \<times> rat \<times> rat"

record motifs_image =
  name :: string
  transcripts :: "annotated list"
  motifs :: "motif list"
  scale :: int
  num_images :: int
  title_len :: int
  longest_len :: int
  foot_len :: int
  spacing :: int
  margins :: int
  width :: int
  height :: int
  tick_spacing :: int
  ticklabels :: "string list"
  tickoffset :: "int list"
  colors :: "color list"
  color_pairs :: "(string \<times> color) list"

definition palette :: "color list" where
  "palette =
     [(0, 1/2, 0),
      (1, 0, 0),
      (0, 0, 1),
      (1/2, 0, 1/2),
      (0, 3/4, 1),
      (1, 0, 1),
      (6/10, 2/10, 4/10),
      (1, 4/10, 0),
      (1, 1, 0),
      (1, 0, 1/2)]"

text \<open>
  Lines 192 to 194: \<open>self.colors[co_count]\<close> raises \<open>IndexError\<close> when \<open>co_count\<close> is not
  below the length of the list.
\<close>

fun color_loop ::
  "color list \<Rightarrow> nat \<Rightarrow> motif list \<Rightarrow> (string \<times> color) list \<Rightarrow> error + (string \<times> color) list" where
  "color_loop cols co_count [] pairs = Inr pairs"
| "color_loop cols co_count (m # ms) pairs =
     (if co_count < length cols
      then color_loop cols (Suc co_count) ms (AList.update (seq m) (cols ! co_count) pairs)
      else Inl IndexError)"

definition MotifsImage :: "string \<Rightarrow> annotated list \<Rightarrow> motif list \<Rightarrow> error + motifs_image" where
  "MotifsImage nm transcripts_list motifs_list =
     (let scale_v = 2;
          num_images_v = int (length transcripts_list);
          title_len_v = 25 + 20 * int (length motifs_list)
      in case max_key length_t transcripts_list of
           Inl e \<Rightarrow> Inl e
         | Inr longest \<Rightarrow>
             let longest_len_v = int (length_t longest);
                 foot_len_v = 120;
                 spacing_v = 200;
                 margins_v = 50;
                 width_v = margins_v * 2 + longest_len_v * scale_v;
                 height_v = num_images_v * spacing_v + title_len_v + foot_len_v;
                 tick_spacing_v = (longest_len_v * scale_v) div 4;
                 ticklabels_v =
                   [''0'', str_int (round_div longest_len_v 4), str_int (round_div longest_len_v 2),
                    str_int (round_div (longest_len_v * 3) 4), str_int longest_len_v]
             in case color_loop palette 0 motifs_list [] of
                  Inl e \<Rightarrow> Inl e
                | Inr pairs \<Rightarrow>
                    Inr \<lparr>name = nm, transcripts = transcripts_list, motifs = motifs_list,
                         scale = scale_v, num_images = num_images_v, title_len = title_len_v,
                         longest_len = longest_len_v, foot_len = foot_len_v,
                         spacing = spacing_v, margins = margins_v, width = width_v,
                         height = height_v, tick_spacing = tick_spacing_v,
                         ticklabels = ticklabels_v, tickoffset = [0, 12, 12, 12, 15],
                         colors = palette, color_pairs = pairs\<rparr>)"

text \<open>
  The drawing methods call the cairo context; a method is modelled by the list of calls it
  makes. All coordinates of the three methods below are integers.
\<close>

datatype draw =
    Set_line_width int
  | Set_source_rgba rat rat rat
  | Move_to int int
  | Line_to int int
  | Stroke

definition add_seqlines :: "motifs_image \<Rightarrow> draw list" where
  "add_seqlines self =
     [Set_line_width 5, Set_source_rgba 0 0 0] @
     concat (map (\<lambda>i.
        [Move_to (margins self) (title_len self + 150 + spacing self * int i),
         Line_to (scale self * int (length_t (transcripts self ! i)) + margins self)
                 (title_len self + 150 + spacing self * int i),
         Stroke]) [0 ..< length (transcripts self)])"

definition add_ticks :: "motifs_image \<Rightarrow> draw list" where
  "add_ticks self =
     concat (map (\<lambda>i.
        [Set_line_width 3,
         Move_to (margins self + int i * tick_spacing self) (height self - 75),
         Line_to (margins self + int i * tick_spacing self) (height self - 100),
         Set_source_rgba 0 0 0,
         Stroke]) [0 ..< length (ticklabels self)])"

definition add_xaxis :: "motifs_image \<Rightarrow> draw list" where
  "add_xaxis self =
     [Set_line_width 3,
      Move_to (margins self - 2) (height self - 75),
      Line_to (width self - margins self + 2) (height self - 75),
      Set_source_rgba 0 0 0,
      Stroke]"

section \<open>Notions used to state the properties\<close>

text \<open>
  A motif object as the constructor builds it, none of whose characters is special in a
  regular expression. For such motifs the search pattern lies in the modelled fragment.
\<close>

definition plain_motif :: "motif \<Rightarrow> bool" where
  "plain_motif m \<longleftrightarrow> m = Motif (oid m) (seq m) \<and> list_all (\<lambda>c. c \<notin> set re_special) (seq m)"

text \<open>
  The matcher of the design notes, written without regular expressions: a motif character
  that is a key of the table matches the characters listed between the brackets of its
  entry, any other motif character matches itself only; a motif occurs at the 1-based
  position \<open>s\<close> of a sequence when its characters match, one by one, the upper-cased bases
  from \<open>s\<close> on.
\<close>

definition char_matches :: "char \<Rightarrow> char \<Rightarrow> bool" where
  "char_matches code base =
     (case ambig_nucleotides code of
        Some r \<Rightarrow> base \<in> set (butlast (tl r))
      | None \<Rightarrow> base = code)"

fun class_match :: "string \<Rightarrow> string \<Rightarrow> bool" where
  "class_match [] bases = True"
| "class_match (k # ks) [] = False"
| "class_match (k # ks) (b # bs) = (char_matches k b \<and> class_match ks bs)"

definition occurs_at :: "string \<Rightarrow> string \<Rightarrow> nat \<Rightarrow> bool" where
  "occurs_at motif_seq bases s =
     (1 \<le> s \<and> s \<le> length bases + 1 \<and> class_match motif_seq (drop (s - 1) (upper bases)))"

text \<open>
  The item that the regular-expression parser makes of the pattern text of one motif
  character (lemma \<open>parse_modular_motif\<close>).
\<close>

definition item_of :: "char \<Rightarrow> re_item" where
  "item_of c =
     (case ambig_nucleotides c of
        Some r \<Rightarrow> In (map Literal_in (butlast (tl r)))
      | None \<Rightarrow> Literal c)"

text \<open>The positions covered by the occurrences of a motif, occurrence by occurrence.\<close>

definition occurrence_ranges :: "string \<Rightarrow> string \<Rightarrow> nat list" where
  "occurrence_ranges motif_seq bases =
     concat (map (\<lambda>s. [s ..< s + length motif_seq])
               (filter (occurs_at motif_seq bases) [1 ..< length bases + 2]))"

text \<open>
  The bases an ambiguity code stands for in the IUPAC nucleotide code, with U beside T as
  the program reads both.
\<close>

definition iupac_bases :: "char \<rightharpoonup> string" where
  "iupac_bases = map_of
     [(CHR ''N'', ''ACGTU''),
      (CHR ''R'', ''AG''),
      (CHR ''Y'', ''CTU''),
      (CHR ''K'', ''GTU''),
      (CHR ''M'', ''AC''),
      (CHR ''S'', ''CG''),
      (CHR ''W'', ''ATU''),
      (CHR ''B'', ''CGTU''),
      (CHR ''D'', ''AGTU''),
      (CHR ''H'', ''ACTU''),
      (CHR ''V'', ''ACG''),
      (CHR ''U'', ''TU''),
      (CHR ''T'', ''TU'')]"

section \<open>Exon positions\<close>

lemma upper_AZ:
  "(CHR ''A'' \<le> c \<and> c \<le> CHR ''Z'') = (c \<in> set ''ABCDEFGHIJKLMNOPQRSTUVWXYZ'')"
  by (cases c) (simp add: less_eq_char_def)

lemma compile_exon_pattern: "re_compile ''[A-Z]'' = Some exon_pattern"
  by (simp add: re_compile_def exon_pattern_def set_special_def)

lemma scan_items_single:
  "scan_items [it] 0 i s = map (\<lambda>j. i + j) (filter (\<lambda>j. item_match it (s ! j)) [0..<length s])"
proof (induction s arbitrary: i)
  case Nil
  then show ?case by simp
next
  case (Cons c cs)
  have upt: "[0..<length (c # cs)] = 0 # map Suc [0..<length cs]"
    by (simp add: upt_conv_Cons map_Suc_upt del: upt_Suc)
  show ?case
    unfolding upt by (simp add: Cons.IH filter_map comp_def del: upt_Suc)
qed

lemma exons_eq:
  "exons (Transcript r s) =
   map Suc (filter (\<lambda>j. s ! j \<in> set ''ABCDEFGHIJKLMNOPQRSTUVWXYZ'') [0..<length s])"
  by (simp add: Transcript_def exon_pattern_def scan_items_single upper_AZ del: set_simps)

text \<open>
  C9. The exon positions of a transcript are exactly the 1-based positions whose base is one
  of the upper-case letters A to Z (any of them, not only A, C, G, T); the list is strictly
  increasing and lies within 1..length; for \<open>acgtACGTacgt\<close> it is \<open>[5, 6, 7, 8]\<close>.
\<close>

theorem exon_positions:
  "(\<forall>i. i \<in> set (exons (Transcript r s)) \<longleftrightarrow>
        1 \<le> i \<and> i \<le> length s \<and> s ! (i - 1) \<in> set ''ABCDEFGHIJKLMNOPQRSTUVWXYZ'')
   \<and> sorted_wrt (<) (exons (Transcript r s))
   \<and> set (exons (Transcript r s)) \<subseteq> {1 .. length s}
   \<and> exons (Transcript r ''acgtACGTacgt'') = [5, 6, 7, 8]"
proof (intro conjI allI)
  fix i
  show "i \<in> set (exons (Transcript r s)) \<longleftrightarrow>
        1 \<le> i \<and> i \<le> length s \<and> s ! (i - 1) \<in> set ''ABCDEFGHIJKLMNOPQRSTUVWXYZ''"
    unfolding exons_eq by (cases i) (auto simp del: set_simps)
  show "sorted_wrt (<) (exons (Transcript r s))"
    unfolding exons_eq by (simp add: sorted_wrt_map sorted_wrt_filter del: set_simps)
  show "set (exons (Transcript r s)) \<subseteq> {1 .. length s}"
    unfolding exons_eq by (auto simp del: set_simps)
  show "exons (Transcript r ''acgtACGTacgt'') = [5, 6, 7, 8]"
    by (simp add: Transcript_def exon_pattern_def)
qed

theorem exon_positions_witness:
  "(\<forall>i. i \<in> set (exons (Transcript ''seq1'' ''aBcXy'')) \<longleftrightarrow>
        1 \<le> i \<and> i \<le> length ''aBcXy'' \<and> ''aBcXy'' ! (i - 1) \<in> set ''ABCDEFGHIJKLMNOPQRSTUVWXYZ'')
   \<and> exons (Transcript ''seq1'' ''aBcXy'') = [2, 4]"
proof -
  have "exons (Transcript ''seq1'' ''aBcXy'') = [2, 4]"
    by (simp add: Transcript_def exon_pattern_def)
  with exon_positions [of "''seq1''" "''aBcXy''"] show ?thesis
    by blast
qed

section \<open>The match pattern of a motif\<close>

lemma modular_loop_eq:
  "modular_loop acc s =
   acc @ concat (map (\<lambda>c. case ambig_nucleotides c of Some r \<Rightarrow> r | None \<Rightarrow> [c]) s)"
  by (induction s arbitrary: acc) (auto split: option.splits)

lemma modular_motif_Nil: "modular_motif [] = []"
  by (simp add: modular_motif_def)

lemma modular_motif_Cons:
  "modular_motif (c # s) =
   (case ambig_nucleotides c of Some r \<Rightarrow> r | None \<Rightarrow> [c]) @ modular_motif s"
  by (simp add: modular_motif_def modular_loop_eq)

lemma modular_motif_append:
  "modular_motif (xs @ ys) = modular_motif xs @ modular_motif ys"
  by (simp add: modular_motif_def modular_loop_eq)

lemma ambig_acgt:
  "ambig_nucleotides (CHR ''A'') = None" "ambig_nucleotides (CHR ''C'') = None"
  "ambig_nucleotides (CHR ''G'') = None" "ambig_nucleotides (CHR ''T'') = Some ''[TU]''"
  by (simp_all add: ambig_nucleotides_def)

lemma modular_motif_acgt:
  "set s \<subseteq> set ''ACGT'' \<Longrightarrow>
   modular_motif s = concat (map (\<lambda>c. if c = CHR ''T'' then ''[TU]'' else [c]) s)"
proof (induction s)
  case Nil
  show ?case by (simp add: modular_motif_Nil)
next
  case (Cons c s)
  then have c: "c = CHR ''A'' \<or> c = CHR ''C'' \<or> c = CHR ''G'' \<or> c = CHR ''T''"
    and s: "set s \<subseteq> set ''ACGT''"
    by auto
  from c show ?case
    by (auto simp add: modular_motif_Cons ambig_acgt Cons.IH [OF s])
qed

lemma expand_T_id:
  "CHR ''T'' \<notin> set s \<Longrightarrow> concat (map (\<lambda>c. if c = CHR ''T'' then ''[TU]'' else [c]) s) = s"
  by (induction s) auto

lemma expand_T_bracket:
  "CHR ''T'' \<in> set s \<Longrightarrow>
   CHR ''['' \<in> set (concat (map (\<lambda>c. if c = CHR ''T'' then ''[TU]'' else [c]) s))"
  by (induction s) auto

text \<open>
  C4, as the claim states it, fails: the table has an entry for T, so a motif of A, C, G, T
  with a T in it does not keep its raw sequence as match pattern.
\<close>

theorem acgt_pattern_counterexample:
  "set ''GAT'' \<subseteq> set ''ACGT'' \<and> re_seq (Motif 0 ''GAT'') = ''GA[TU]''
   \<and> re_seq (Motif 0 ''GAT'') \<noteq> seq (Motif 0 ''GAT'')"
  by (simp add: Motif_def modular_motif_def ambig_nucleotides_def)

text \<open>
  C4, amended. For every motif whose raw sequence consists only of A, C, G and T, the match
  pattern is the raw sequence with every T replaced by the class \<open>[TU]\<close> and A, C, G left as
  they are; it equals the raw sequence exactly when the motif has no T.
\<close>

theorem acgt_pattern:
  assumes "set s \<subseteq> set ''ACGT''"
  shows "re_seq (Motif i s) = concat (map (\<lambda>c. if c = CHR ''T'' then ''[TU]'' else [c]) s)
       \<and> (re_seq (Motif i s) = seq (Motif i s) \<longleftrightarrow> CHR ''T'' \<notin> set s)"
proof -
  let ?e = "concat (map (\<lambda>c. if c = CHR ''T'' then ''[TU]'' else [c]) s)"
  have eq: "re_seq (Motif i s) = ?e"
    using assms by (simp add: Motif_def modular_motif_acgt)
  have "?e = s" if "CHR ''T'' \<notin> set s"
    using that by (rule expand_T_id)
  moreover have "?e \<noteq> s" if t: "CHR ''T'' \<in> set s"
  proof
    assume "?e = s"
    with expand_T_bracket [OF t] have "CHR ''['' \<in> set s" by simp
    with assms show False by auto
  qed
  ultimately show ?thesis
    using eq by (auto simp add: Motif_def)
qed

theorem acgt_pattern_witness:
  "set ''GATTACA'' \<subseteq> set ''ACGT'' \<and> re_seq (Motif 0 ''GATTACA'') = ''GA[TU][TU]ACA''
   \<and> set ''GAC'' \<subseteq> set ''ACGT'' \<and> re_seq (Motif 1 ''GAC'') = ''GAC''"
proof -
  have h1: "set ''GATTACA'' \<subseteq> set ''ACGT''" by simp
  have h2: "set ''GAC'' \<subseteq> set ''ACGT''" by simp
  show ?thesis
    using h1 h2 acgt_pattern [OF h1, of 0] acgt_pattern [OF h2, of 1] by (simp add: Motif_def)
qed

section \<open>The search pattern of a motif and the matcher without regular expressions\<close>

lemma parse_set_literal:
  "c \<notin> set set_special \<Longrightarrow> cs \<noteq> [] \<Longrightarrow> hd cs \<noteq> CHR ''-'' \<Longrightarrow>
   parse_set acc (c # cs) = parse_set (acc @ [Literal_in c]) cs"
  by (cases cs) (auto simp add: set_special_def split: list.splits)

lemma parse_set_close:
  "acc \<noteq> [] \<Longrightarrow> parse_set acc (CHR '']'' # cs) = map_option (Cons (In acc)) (parse_items cs)"
  by simp

lemma ambig_cases:
  assumes "ambig_nucleotides c = Some r"
  shows "(c, r) \<in> set
     [(CHR ''N'', ''[NAGCTU]''), (CHR ''R'', ''[RAG]''), (CHR ''Y'', ''[YTCU]''),
      (CHR ''K'', ''[KGTU]''), (CHR ''M'', ''[MAC]''), (CHR ''S'', ''[SGC]''),
      (CHR ''W'', ''[WATU]''), (CHR ''B'', ''[BCGTU]''), (CHR ''D'', ''[DAGTU]''),
      (CHR ''H'', ''[HACG]''), (CHR ''V'', ''[VACG]''), (CHR ''U'', ''[TU]''),
      (CHR ''T'', ''[TU]'')]"
  using assms unfolding ambig_nucleotides_def by (rule map_of_SomeD)

lemma parse_class:
  assumes "ambig_nucleotides c = Some r"
  shows "parse_items (r @ rest) = map_option (Cons (In (map Literal_in (butlast (tl r))))) (parse_items rest)"
  using ambig_cases [OF assms]
  by (auto simp add: set_special_def split: list.splits)

lemma parse_literal:
  "c \<notin> set re_special \<Longrightarrow> parse_items (c # rest) = map_option (Cons (Literal c)) (parse_items rest)"
  by (auto simp add: re_special_def)

lemma parse_modular_motif:
  "list_all (\<lambda>c. c \<notin> set re_special) s \<Longrightarrow> parse_items (modular_motif s) = Some (map item_of s)"
proof (induction s)
  case Nil
  show ?case by (simp add: modular_motif_Nil)
next
  case (Cons c s)
  then have c: "c \<notin> set re_special" and IH: "parse_items (modular_motif s) = Some (map item_of s)"
    by simp_all
  show ?case
  proof (cases "ambig_nucleotides c")
    case None
    then show ?thesis
      using parse_literal [OF c] by (simp add: modular_motif_Cons IH item_of_def del: parse_items.simps)
  next
    case (Some r)
    then show ?thesis
      using parse_class [OF Some] by (simp add: modular_motif_Cons IH item_of_def del: parse_items.simps)
  qed
qed

lemma compile_lookahead:
  "re_compile (''(?='' @ r @ '')'') = map_option Assert (parse_items r)"
  by (simp add: re_compile_def)

lemma list_ex_Literal_in:
  "list_ex (\<lambda>i. set_item_match i b) (map Literal_in xs) = (b \<in> set xs)"
  by (induction xs) auto

lemma item_match_item_of: "item_match (item_of c) b = char_matches c b"
  by (simp add: item_of_def char_matches_def list_ex_Literal_in split: option.splits)

lemma match_items_class_match: "match_items (map item_of s) t = class_match s t"
  by (induction s t rule: class_match.induct) (simp_all add: item_match_item_of)

lemma scan_assert_eq:
  "scan_assert its i t = map (\<lambda>j. i + j) (filter (\<lambda>j. match_items its (drop j t)) [0..<length t + 1])"
proof (induction t arbitrary: i)
  case Nil
  show ?case by simp
next
  case (Cons c cs)
  have upt: "[0..<length (c # cs) + 1] = 0 # map Suc [0..<length cs + 1]"
    by (simp add: upt_conv_Cons map_Suc_upt del: upt_Suc)
  show ?case
    unfolding upt by (simp add: Cons.IH filter_map comp_def del: upt_Suc match_items.simps)
qed

lemma starts_plain:
  assumes "plain_motif m"
  shows "finditer (''(?='' @ re_seq m @ '')'') (upper bases) =
         Some (filter (\<lambda>j. class_match (seq m) (drop j (upper bases))) [0..<length bases + 1])"
proof -
  from assms have r: "re_seq m = modular_motif (seq m)" and p: "list_all (\<lambda>c. c \<notin> set re_special) (seq m)"
    unfolding plain_motif_def Motif_def by (metis motif.select_convs(4), simp)
  show ?thesis
    unfolding finditer_def compile_lookahead r parse_modular_motif [OF p]
    by (simp add: scan_assert_eq match_items_class_match upper_def del: upt_Suc)
qed

section \<open>The loops of \<open>find_motifs\<close>\<close>

lemma starts_one_based:
  "map Suc (filter (\<lambda>j. class_match mseq (drop j (upper bases))) [0..<length bases + 1]) =
   filter (occurs_at mseq bases) [1 ..< length bases + 2]"
proof -
  have "[1 ..< length bases + 2] = map Suc [0..<length bases + 1]"
    by (simp add: map_Suc_upt del: upt_Suc)
  moreover have "filter (occurs_at mseq bases \<circ> Suc) [0..<length bases + 1] =
                 filter (\<lambda>j. class_match mseq (drop j (upper bases))) [0..<length bases + 1]"
    by (rule filter_cong) (auto simp add: occurs_at_def)
  ultimately show ?thesis
    by (simp add: filter_map del: upt_Suc)
qed

lemma motif_ranges_plain:
  assumes "plain_motif m"
  shows "motif_ranges m (filter (\<lambda>j. class_match (seq m) (drop j (upper bases))) [0..<length bases + 1]) =
         occurrence_ranges (seq m) bases"
proof -
  from assms have "m = Motif (oid m) (seq m)" by (simp add: plain_motif_def)
  then have len: "length_m m = length (seq m)"
    unfolding Motif_def by (metis motif.select_convs(3))
  show ?thesis
    unfolding occurrence_ranges_def starts_one_based [symmetric] motif_ranges_def len
    by (simp add: comp_def del: upt_Suc)
qed

lemma locations_loop_plain:
  "\<forall>m\<in>set ms. plain_motif m \<Longrightarrow>
   locations_loop sequ ms d =
   Some (fold (\<lambda>m. AList.update m (occurrence_ranges (seq m) sequ)) ms d)"
proof (induction ms arbitrary: d)
  case Nil
  show ?case by simp
next
  case (Cons m ms)
  then have m: "plain_motif m" and ms: "\<forall>m\<in>set ms. plain_motif m"
    by simp_all
  have mr: "motif_ranges m (filter (\<lambda>j. class_match (seq m) (drop j (upper sequ)))
                [0..<Suc (length sequ)]) = occurrence_ranges (seq m) sequ"
    using motif_ranges_plain [OF m, of sequ] by (simp del: upt_Suc)
  have "locations_loop sequ (m # ms) d =
        locations_loop sequ ms (AList.update m (occurrence_ranges (seq m) sequ) d)"
    unfolding locations_loop.simps starts_plain [OF m]
    by (simp add: mr del: upt_Suc)
  then show ?case
    by (simp add: Cons.IH [OF ms] del: locations_loop.simps)
qed

lemma map_of_fold_update:
  "map_of (fold (\<lambda>k. AList.update k (f k)) ks d) k =
   (if k \<in> set ks then Some (f k) else map_of d k)"
  by (induction ks arbitrary: d) (auto simp add: update_conv')

lemma set_update_subset: "set (AList.update k v d) \<subseteq> insert (k, v) (set d)"
  by (induction d) auto

lemma set_fold_update:
  "(k, v) \<in> set (fold (\<lambda>k. AList.update k (f k)) ks d) \<Longrightarrow>
   (k, v) \<in> set d \<or> (k \<in> set ks \<and> v = f k)"
proof (induction ks arbitrary: d)
  case Nil
  then show ?case by simp
next
  case (Cons a ks)
  from Cons.prems have "(k, v) \<in> set (fold (\<lambda>k. AList.update k (f k)) ks (AList.update a (f a) d))"
    by simp
  from Cons.IH [OF this] show ?case
    using set_update_subset [of a "f a" d] by auto
qed

lemma update_fresh: "k \<notin> fst ` set d \<Longrightarrow> AList.update k v d = d @ [(k, v)]"
  by (induction d) auto

lemma fold_update_fresh:
  "distinct ks \<Longrightarrow> set ks \<inter> fst ` set d = {} \<Longrightarrow>
   fold (\<lambda>k. AList.update k (f k)) ks d = d @ map (\<lambda>k. (k, f k)) ks"
proof (induction ks arbitrary: d)
  case Nil
  show ?case by simp
next
  case (Cons a ks)
  then have a: "a \<notin> fst ` set d" and d: "distinct ks" and n: "a \<notin> set ks"
    and i: "set ks \<inter> fst ` set d = {}"
    by auto
  have "set ks \<inter> fst ` set (d @ [(a, f a)]) = {}"
    using i n by auto
  from Cons.IH [OF d this] show ?case
    by (simp add: update_fresh [OF a])
qed

lemma motif_in_False: "motif_in m labels = False"
  by (induction labels) (simp_all add: motif_in_def motif_eq_str_def)

lemma labels_loop_eq:
  "labels_loop p locs acc = acc @ map (\<lambda>e. seq (fst e)) (filter (\<lambda>e. p \<in> set (snd e)) locs)"
  by (induction p locs acc rule: labels_loop.induct) (simp_all add: motif_in_False)

lemma positions_loop_fold:
  "positions_loop locs ps pm = fold (\<lambda>p. AList.update p (labels_loop p locs [])) ps pm"
  by (induction ps arbitrary: pm) simp_all

lemma positions_loop_eq:
  "positions_loop locs [1 ..< n + 1] [] = map (\<lambda>p. (p, labels_loop p locs [])) [1 ..< n + 1]"
  unfolding positions_loop_fold by (subst fold_update_fresh) simp_all

lemma in_occurrence_ranges:
  "p \<in> set (occurrence_ranges mseq bases) \<longleftrightarrow>
   (\<exists>s. occurs_at mseq bases s \<and> s \<le> p \<and> p < s + length mseq)"
proof -
  have "p \<in> set (occurrence_ranges mseq bases) \<longleftrightarrow>
        (\<exists>s\<in>set [1 ..< length bases + 2]. occurs_at mseq bases s \<and> s \<le> p \<and> p < s + length mseq)"
    unfolding occurrence_ranges_def by (auto simp del: upt_Suc)
  also have "\<dots> \<longleftrightarrow> (\<exists>s. occurs_at mseq bases s \<and> s \<le> p \<and> p < s + length mseq)"
    by (auto simp add: occurs_at_def simp del: upt_Suc)
  finally show ?thesis .
qed

lemma find_motifs_plain:
  assumes "\<forall>m\<in>set ms. plain_motif m"
  shows "find_motifs t ms =
    Some (transcript.extend t
      (annotated.fields
        (fold (\<lambda>m. AList.update m (occurrence_ranges (seq m) (sequence t))) ms [])
        (map (\<lambda>p. (p, labels_loop p (fold (\<lambda>m. AList.update m (occurrence_ranges (seq m) (sequence t))) ms []) []))
           [1 ..< length (sequence t) + 1])))"
  unfolding find_motifs_def locations_loop_plain [OF assms] positions_loop_eq by simp

lemma annotated_sel:
  "motif_locations (transcript.extend t (annotated.fields l pm)) = l"
  "position_motif (transcript.extend t (annotated.fields l pm)) = pm"
  by (simp_all add: transcript.extend_def annotated.fields_def  transcript.defs annotated.defs)

section \<open>The annotation index\<close>

lemma plain_Motif:
  "list_all (\<lambda>c. c \<notin> set re_special) s \<Longrightarrow> plain_motif (Motif i s)"
  by (simp add: plain_motif_def Motif_def)

text \<open>
  C1. For a motif built by the constructor (with no character that is special in a regular
  expression), the match starts that the search engine computes on line 138, counted from
  1, are exactly the positions at which the motif occurs in the upper-cased sequence,
  overlapping occurrences included, and \<open>motif_locations\<close> holds the positions these
  occurrences cover. Motif AA in sequence AAAA has the match starts 1, 2 and 3.
\<close>

theorem overlapping_matches:
  assumes "\<forall>m\<in>set ms. plain_motif m" and "m \<in> set ms"
  shows "map_option (map Suc) (finditer (''(?='' @ re_seq m @ '')'') (upper (sequence t))) =
           Some (filter (occurs_at (seq m) (sequence t)) [1 ..< length (sequence t) + 2])
       \<and> (\<exists>a. find_motifs t ms = Some a \<and>
              map_of (motif_locations a) m = Some (occurrence_ranges (seq m) (sequence t)))
       \<and> map_option (map Suc) (finditer (''(?='' @ re_seq (Motif i ''AA'') @ '')'') (upper ''AAAA''))
           = Some [1, 2, 3]"
proof (intro conjI)
  from assms have m: "plain_motif m" by simp
  show "map_option (map Suc) (finditer (''(?='' @ re_seq m @ '')'') (upper (sequence t))) =
        Some (filter (occurs_at (seq m) (sequence t)) [1 ..< length (sequence t) + 2])"
    unfolding starts_plain [OF m] option.map starts_one_based ..
  show "\<exists>a. find_motifs t ms = Some a \<and>
            map_of (motif_locations a) m = Some (occurrence_ranges (seq m) (sequence t))"
    unfolding find_motifs_plain [OF assms(1)]
    using assms(2) by (simp add: annotated_sel map_of_fold_update del: upt_Suc)
  show "map_option (map Suc) (finditer (''(?='' @ re_seq (Motif i ''AA'') @ '')'') (upper ''AAAA''))
        = Some [1, 2, 3]"
    by (simp add: finditer_def re_compile_def re_special_def Motif_def modular_motif_def
        ambig_nucleotides_def upper_def upper_char_def)
qed

theorem overlapping_matches_witness:
  "plain_motif (Motif 0 ''AA'')
   \<and> map_option (map Suc) (finditer (''(?='' @ re_seq (Motif 0 ''AA'') @ '')'') (upper ''AAAA'')) = Some [1, 2, 3]
   \<and> map_option motif_locations (find_motifs (Transcript ''t'' ''AAAA'') [Motif 0 ''AA''])
       = Some [(Motif 0 ''AA'', [1, 2, 2, 3, 3, 4])]"
proof -
  have p: "\<forall>m\<in>set [Motif 0 ''AA'']. plain_motif m"
    by (simp add: plain_Motif re_special_def)
  have i: "Motif 0 ''AA'' \<in> set [Motif 0 ''AA'']" by simp
  have s: "sequence (Transcript ''t'' ''AAAA'') = ''AAAA''" by (simp add: Transcript_def)
  have sq: "seq (Motif 0 ''AA'') = ''AA''" by (simp add: Motif_def)
  note th = overlapping_matches [OF p i, of "Transcript ''t'' ''AAAA''"]
  from th [THEN conjunct1]
  have a: "map_option (map Suc) (finditer (''(?='' @ re_seq (Motif 0 ''AA'') @ '')'') (upper ''AAAA'')) =
           Some (filter (occurs_at ''AA'' ''AAAA'') [1 ..< length ''AAAA'' + 2])"
    unfolding s sq .
  have b: "filter (occurs_at ''AA'' ''AAAA'') [1 ..< length ''AAAA'' + 2] = [1, 2, 3]"
    by (simp add: occurs_at_def upper_def upper_char_def char_matches_def ambig_nucleotides_def)
  have c: "map_option motif_locations (find_motifs (Transcript ''t'' ''AAAA'') [Motif 0 ''AA''])
       = Some [(Motif 0 ''AA'', [1, 2, 2, 3, 3, 4])]"
    unfolding find_motifs_plain [OF p] s option.map annotated_sel fold_simps sq
      occurrence_ranges_def b
    by simp
  from p a [unfolded b] c show ?thesis by simp
qed

text \<open>
  C2. The annotation index \<open>position_motif\<close> has exactly the keys 1, ..., length of the
  sequence, each once and in this order, and a position that no occurrence of a motif of
  the list covers has the empty label list.
\<close>

theorem index_keys:
  assumes "\<forall>m\<in>set ms. plain_motif m"
  shows "\<exists>a. find_motifs t ms = Some a
           \<and> map fst (position_motif a) = [1 ..< length (sequence t) + 1]
           \<and> (\<forall>p\<in>{1 .. length (sequence t)}.
                (\<forall>m\<in>set ms. \<forall>s. occurs_at (seq m) (sequence t) s \<longrightarrow> \<not> (s \<le> p \<and> p < s + length (seq m)))
                \<longrightarrow> map_of (position_motif a) p = Some [])"
proof -
  let ?locs = "fold (\<lambda>m. AList.update m (occurrence_ranges (seq m) (sequence t))) ms []"
  let ?pm = "map (\<lambda>p. (p, labels_loop p ?locs [])) [1 ..< length (sequence t) + 1]"
  have keys: "map fst ?pm = [1 ..< length (sequence t) + 1]"
    by (simp add: comp_def del: upt_Suc)
  have empty: "map_of ?pm p = Some []"
    if p: "p \<in> {1 .. length (sequence t)}"
      and u: "\<forall>m\<in>set ms. \<forall>s. occurs_at (seq m) (sequence t) s \<longrightarrow> \<not> (s \<le> p \<and> p < s + length (seq m))"
    for p
  proof -
    have "filter (\<lambda>e. p \<in> set (snd e)) ?locs = []"
    proof (rule ccontr)
      assume "filter (\<lambda>e. p \<in> set (snd e)) ?locs \<noteq> []"
      then obtain e where e: "e \<in> set ?locs" and pe: "p \<in> set (snd e)"
        by (auto simp add: filter_empty_conv)
      from e have "(fst e, snd e) \<in> set ?locs" by simp
      from set_fold_update [OF this] have "fst e \<in> set ms"
        and "snd e = occurrence_ranges (seq (fst e)) (sequence t)"
        by simp_all
      with pe u show False
        by (auto simp add: in_occurrence_ranges)
    qed
    then have l: "labels_loop p ?locs [] = []"
      by (simp add: labels_loop_eq)
    have "map_of ?pm p = Some (labels_loop p ?locs [])"
      using p by (simp add: map_of_map_restrict del: upt_Suc)
    with l show ?thesis by simp
  qed
  define a where "a = transcript.extend t (annotated.fields ?locs ?pm)"
  have fm: "find_motifs t ms = Some a"
    unfolding a_def by (rule find_motifs_plain [OF assms])
  have pm: "position_motif a = ?pm"
    unfolding a_def by (rule annotated_sel)
  show ?thesis
  proof (intro exI conjI ballI impI)
    show "find_motifs t ms = Some a" by (rule fm)
    show "map fst (position_motif a) = [1 ..< length (sequence t) + 1]"
      unfolding pm by (rule keys)
    show "map_of (position_motif a) p = Some []"
      if "p \<in> {1 .. length (sequence t)}"
        and "\<forall>m\<in>set ms. \<forall>s. occurs_at (seq m) (sequence t) s \<longrightarrow> \<not> (s \<le> p \<and> p < s + length (seq m))"
      for p
      unfolding pm using that by (rule empty)
  qed
qed

theorem index_keys_witness:
  "plain_motif (Motif 0 ''TAG'')
   \<and> map_option (\<lambda>a. map fst (position_motif a)) (find_motifs (Transcript ''t'' ''aTAG'') [Motif 0 ''TAG''])
       = Some [1, 2, 3, 4]
   \<and> map_option (\<lambda>a. map_of (position_motif a) 1) (find_motifs (Transcript ''t'' ''aTAG'') [Motif 0 ''TAG''])
       = Some (Some [])"
proof -
  let ?t = "Transcript ''t'' ''aTAG''"
  have p: "\<forall>m\<in>set [Motif 0 ''TAG'']. plain_motif m"
    by (simp add: plain_Motif re_special_def)
  have s: "sequence ?t = ''aTAG''" by (simp add: Transcript_def)
  have sq: "seq (Motif 0 ''TAG'') = ''TAG''" by (simp add: Motif_def)
  have n: "\<not> occurs_at ''TAG'' ''aTAG'' 1"
    by (simp add: occurs_at_def upper_def upper_char_def char_matches_def ambig_nucleotides_def)
  have u: "\<forall>m\<in>set [Motif 0 ''TAG'']. \<forall>s. occurs_at (seq m) (sequence ?t) s \<longrightarrow>
             \<not> (s \<le> 1 \<and> 1 < s + length (seq m))"
  proof (intro ballI allI impI notI)
    fix m s
    assume "m \<in> set [Motif 0 ''TAG'']" and o: "occurs_at (seq m) (sequence ?t) s"
      and "s \<le> 1 \<and> 1 < s + length (seq m)"
    then have "m = Motif 0 ''TAG''" and "s = 1"
      by (auto simp add: occurs_at_def)
    with o n show False by (simp add: s sq)
  qed
  from index_keys [OF p, of ?t] obtain a where a: "find_motifs ?t [Motif 0 ''TAG''] = Some a"
    and k: "map fst (position_motif a) = [1 ..< length (sequence ?t) + 1]"
    and e: "\<forall>p\<in>{1 .. length (sequence ?t)}.
              (\<forall>m\<in>set [Motif 0 ''TAG'']. \<forall>s. occurs_at (seq m) (sequence ?t) s \<longrightarrow>
                  \<not> (s \<le> p \<and> p < s + length (seq m)))
              \<longrightarrow> map_of (position_motif a) p = Some []"
    by blast
  have "1 \<in> {1 .. length (sequence ?t)}" by (simp add: s)
  with e u have "map_of (position_motif a) 1 = Some []" by blast
  moreover from k have "map fst (position_motif a) = [1, 2, 3, 4]"
    by (simp add: s upt_conv_Cons)
  ultimately show ?thesis
    using p a by simp
qed

lemmas eval_defs = find_motifs_def finditer_def re_compile_def Motif_def modular_motif_def
  ambig_nucleotides_def upper_def upper_char_def Transcript_def exon_pattern_def motif_ranges_def
  motif_in_def motif_eq_str_def re_special_def set_special_def transcript.extend_def annotated.fields_def

text \<open>
  What the index holds when the motif objects of the list are pairwise different objects:
  at every position, one label for every motif object with an occurrence that covers the
  position, in the order of the motif list.
\<close>

lemma locations_distinct:
  "distinct ms \<Longrightarrow>
   fold (\<lambda>m. AList.update m (f m)) ms [] = map (\<lambda>m. (m, f m)) ms"
  by (subst fold_update_fresh) simp_all

lemma labels_per_object:
  assumes "\<forall>m\<in>set ms. plain_motif m" and "distinct ms"
  shows "\<exists>a. find_motifs t ms = Some a \<and>
           (\<forall>p\<in>{1 .. length (sequence t)}.
              map_of (position_motif a) p =
              Some (map seq (filter (\<lambda>m. \<exists>s. occurs_at (seq m) (sequence t) s \<and> s \<le> p \<and> p < s + length (seq m)) ms)))"
proof -
  let ?f = "\<lambda>m. occurrence_ranges (seq m) (sequence t)"
  let ?locs = "map (\<lambda>m. (m, ?f m)) ms"
  let ?pm = "map (\<lambda>p. (p, labels_loop p ?locs [])) [1 ..< length (sequence t) + 1]"
  define a where "a = transcript.extend t (annotated.fields ?locs ?pm)"
  have fm: "find_motifs t ms = Some a"
    unfolding a_def find_motifs_plain [OF assms(1)] locations_distinct [OF assms(2)] ..
  have pm: "position_motif a = ?pm"
    unfolding a_def by (rule annotated_sel)
  have "map_of ?pm p = Some (map seq (filter (\<lambda>m. \<exists>s. occurs_at (seq m) (sequence t) s \<and> s \<le> p \<and> p < s + length (seq m)) ms))"
    if "p \<in> {1 .. length (sequence t)}" for p
  proof -
    have "map_of ?pm p = Some (labels_loop p ?locs [])"
      using that by (simp add: map_of_map_restrict del: upt_Suc)
    then show ?thesis
      by (simp add: labels_loop_eq filter_map comp_def in_occurrence_ranges)
  qed
  with fm pm show ?thesis by simp
qed

text \<open>
  C3 at a motif file with the line \<open>A\<close> twice and the sequence \<open>A\<close>: the two lines give two
  motif objects with the same raw sequence, and position 1 lists the label \<open>A\<close> twice. The
  test on line 145 that should keep a label from being listed twice compares the motif
  object with the labels, which are strings, and never finds it.
\<close>

theorem duplicate_motif_label:
  "parse_motif_txt 0 [[CHR ''A'', CHR 0x0A], [CHR ''A'', CHR 0x0A]] = [Motif 0 ''A'', Motif 1 ''A'']
   \<and> map_option position_motif (find_motifs (Transcript ''t'' ''A'') [Motif 0 ''A'', Motif 1 ''A''])
       = Some [(1, [''A'', ''A''])]"
  by (simp add: eval_defs strip_def is_space_def)

section \<open>Characters outside the table\<close>

text \<open>
  C5, as the claim states it, fails: X is neither a key of the table nor one of A, C, G, T;
  the constructor builds the motif AXG with X in its pattern and the search returns an
  index.
\<close>

theorem invalid_character_counterexample:
  "CHR ''X'' \<notin> dom ambig_nucleotides \<and> CHR ''X'' \<notin> set ''ACGT''
   \<and> re_seq (Motif 0 ''AXG'') = ''AXG''
   \<and> map_option position_motif (find_motifs (Transcript ''t'' ''aaxg'') [Motif 0 ''AXG''])
       = Some [(1, []), (2, [''AXG'']), (3, [''AXG'']), (4, [''AXG''])]"
  by (simp add: eval_defs dom_def)

text \<open>
  C5, amended. Pattern construction does not fail: a character that is not a key of the
  table is emitted unchanged into the match pattern, between the patterns of what precedes
  and what follows it. The search over motifs built by the constructor, with no character
  that is special in a regular expression, returns an index.
\<close>

theorem invalid_character_emitted:
  "(c \<notin> dom ambig_nucleotides \<longrightarrow>
      re_seq (Motif i (xs @ c # ys)) = re_seq (Motif i xs) @ c # re_seq (Motif i ys))
   \<and> ((\<forall>m\<in>set ms. plain_motif m) \<longrightarrow> find_motifs t ms \<noteq> None)"
proof (intro conjI impI)
  assume "c \<notin> dom ambig_nucleotides"
  then have "ambig_nucleotides c = None" by auto
  then show "re_seq (Motif i (xs @ c # ys)) = re_seq (Motif i xs) @ c # re_seq (Motif i ys)"
    by (simp add: Motif_def modular_motif_append modular_motif_Cons)
next
  assume "\<forall>m\<in>set ms. plain_motif m"
  then show "find_motifs t ms \<noteq> None"
    by (simp add: find_motifs_plain)
qed

theorem invalid_character_emitted_witness:
  "CHR ''X'' \<notin> dom ambig_nucleotides
   \<and> re_seq (Motif 0 (''A'' @ CHR ''X'' # ''G'')) = re_seq (Motif 0 ''A'') @ CHR ''X'' # re_seq (Motif 0 ''G'')
   \<and> plain_motif (Motif 0 ''AXG'')
   \<and> find_motifs (Transcript ''t'' ''aaxg'') [Motif 0 ''AXG''] \<noteq> None"
proof -
  have x: "CHR ''X'' \<notin> dom ambig_nucleotides"
    by (simp add: ambig_nucleotides_def dom_def)
  have p: "\<forall>m\<in>set [Motif 0 ''AXG'']. plain_motif m"
    by (simp add: plain_Motif re_special_def)
  note th = invalid_character_emitted [of "CHR ''X''" 0 "''A''" "''G''" "[Motif 0 ''AXG'']" "Transcript ''t'' ''aaxg''"]
  from th [THEN conjunct1, THEN mp, OF x] th [THEN conjunct2, THEN mp, OF p] x p
  show ?thesis by simp
qed

section \<open>The classes of the table\<close>

text \<open>
  C10 at the motif H: in the IUPAC code H stands for A, C or T; the table entry is
  \<open>[HACG]\<close>, so the motif H is not found on the base T and is found on the base G.
\<close>

theorem H_class_misses_T:
  "iupac_bases (CHR ''H'') = Some ''ACTU'' \<and> ambig_nucleotides (CHR ''H'') = Some ''[HACG]''
   \<and> re_seq (Motif 0 ''H'') = ''[HACG]''
   \<and> map_option position_motif (find_motifs (Transcript ''t'' ''T'') [Motif 0 ''H'']) = Some [(1, [])]
   \<and> map_option position_motif (find_motifs (Transcript ''t'' ''G'') [Motif 0 ''H'']) = Some [(1, [''H''])]"
  by (simp add: eval_defs iupac_bases_def)

section \<open>The layout computed by the constructor of \<open>MotifsImage\<close>\<close>

lemma max_loop_fold: "key (max_loop key best xs) = fold max (map key xs) (key best)"
  by (induction xs arbitrary: best) (simp_all add: max_def not_less)

lemma max_loop_Max: "key (max_loop key x xs) = Max (key ` set (x # xs))"
proof -
  have "Max (set (key x # map key xs)) = fold max (map key xs) (key x)"
    by (rule Max.set_eq_fold)
  then show ?thesis by (simp add: max_loop_fold)
qed

lemma max_key_Inr:
  "ts \<noteq> [] \<Longrightarrow> \<exists>t. max_key key ts = Inr t \<and> key t = Max (key ` set ts)"
  by (cases ts) (simp_all add: max_key_def max_loop_Max del: set_simps)

lemma color_loop_ok:
  "k + length ms \<le> length cols \<Longrightarrow>
   \<exists>pairs'. color_loop cols k ms pairs = Inr pairs' \<and>
     map_of pairs' = map_of (rev (zip (map seq ms) (drop k cols)) @ pairs)"
proof (induction ms arbitrary: k pairs)
  case Nil
  show ?case by simp
next
  case (Cons m ms)
  then have k: "k < length cols" and le: "Suc k + length ms \<le> length cols"
    by simp_all
  from Cons.IH [OF le, of "AList.update (seq m) (cols ! k) pairs"]
  obtain pairs' where r: "color_loop cols (Suc k) ms (AList.update (seq m) (cols ! k) pairs) = Inr pairs'"
    and m: "map_of pairs' =
            map_of (rev (zip (map seq ms) (drop (Suc k) cols)) @ AList.update (seq m) (cols ! k) pairs)"
    by blast
  have d: "drop k cols = cols ! k # drop (Suc k) cols"
    using k by (simp add: Cons_nth_drop_Suc)
  have "map_of pairs' = map_of (rev (zip (map seq (m # ms)) (drop k cols)) @ pairs)"
    unfolding m d by (simp add: update_conv' map_add_def fun_eq_iff)
  with r k show ?case by simp
qed

lemma color_loop_fail:
  "k \<le> length cols \<Longrightarrow> length cols < k + length ms \<Longrightarrow>
   color_loop cols k ms pairs = Inl IndexError"
  by (induction ms arbitrary: k pairs) simp_all

lemma color_loop_distinct:
  "distinct (map seq ms) \<Longrightarrow> seq ` set ms \<inter> fst ` set pairs = {} \<Longrightarrow>
   k + length ms \<le> length cols \<Longrightarrow>
   color_loop cols k ms pairs = Inr (pairs @ zip (map seq ms) (drop k cols))"
proof (induction ms arbitrary: k pairs)
  case Nil
  show ?case by simp
next
  case (Cons m ms)
  then have k: "k < length cols" and le: "Suc k + length ms \<le> length cols"
    and f: "seq m \<notin> fst ` set pairs" and dm: "distinct (map seq ms)"
    and n: "seq m \<notin> seq ` set ms" and i: "seq ` set ms \<inter> fst ` set pairs = {}"
    by auto
  have d: "drop k cols = cols ! k # drop (Suc k) cols"
    using k by (simp add: Cons_nth_drop_Suc)
  have "seq ` set ms \<inter> fst ` set (pairs @ [(seq m, cols ! k)]) = {}"
    using i n by auto
  from Cons.IH [OF dm this le] show ?case
    using k by (simp add: update_fresh [OF f] d)
qed

lemma length_palette: "length palette = 10"
  by (simp add: palette_def)

lemma MotifsImage_empty: "MotifsImage n [] ms = Inl ValueError"
  by (simp add: MotifsImage_def max_key_def)

lemma MotifsImage_too_many:
  "ts \<noteq> [] \<Longrightarrow> 10 < length ms \<Longrightarrow> MotifsImage n ts ms = Inl IndexError"
  using max_key_Inr [of ts length_t] color_loop_fail [where cols = palette and k = 0 and ms = ms and pairs = "[]"]
  by (auto simp add: MotifsImage_def Let_def length_palette)

lemma MotifsImage_ok:
  assumes "ts \<noteq> []" and "length ms \<le> 10"
  shows "\<exists>pairs. color_loop palette 0 ms [] = Inr pairs \<and>
    MotifsImage n ts ms = Inr
      \<lparr>name = n, transcripts = ts, motifs = ms, scale = 2, num_images = int (length ts),
       title_len = 25 + 20 * int (length ms), longest_len = int (Max (length_t ` set ts)),
       foot_len = 120, spacing = 200, margins = 50,
       width = 50 * 2 + int (Max (length_t ` set ts)) * 2,
       height = int (length ts) * 200 + (25 + 20 * int (length ms)) + 120,
       tick_spacing = (int (Max (length_t ` set ts)) * 2) div 4,
       ticklabels =
         [''0'', str_int (round_div (int (Max (length_t ` set ts))) 4),
          str_int (round_div (int (Max (length_t ` set ts))) 2),
          str_int (round_div (int (Max (length_t ` set ts)) * 3) 4),
          str_int (int (Max (length_t ` set ts)))],
       tickoffset = [0, 12, 12, 12, 15], colors = palette, color_pairs = pairs\<rparr>"
proof -
  from max_key_Inr [OF assms(1), of length_t] obtain t
    where t: "max_key length_t ts = Inr t" and l: "length_t t = Max (length_t ` set ts)"
    by blast
  from color_loop_ok [where cols = palette and k = 0 and ms = ms and pairs = "[]"] assms(2) obtain pairs
    where p: "color_loop palette 0 ms [] = Inr pairs"
    by (auto simp add: length_palette)
  show ?thesis
    by (simp add: MotifsImage_def Let_def t l p)
qed

text \<open>
  C6. For a non-empty list of sequences the constructor returns an image exactly when there
  are at most 10 motifs (the size of the palette), and every image it returns has scale 2,
  width \<open>2 * margins + scale * (largest sequence length)\<close> and height
  \<open>rows * spacing + title_len + foot_len\<close>, with the constant row spacing 200 and the header
  height \<open>title_len = 25 + 20 * (number of motifs)\<close>.
\<close>

theorem canvas_size:
  assumes "ts \<noteq> []"
  shows "((\<exists>img. MotifsImage n ts ms = Inr img) \<longleftrightarrow> length ms \<le> 10)
       \<and> (\<forall>img. MotifsImage n ts ms = Inr img \<longrightarrow>
             scale img = 2 \<and> margins img = 50 \<and> spacing img = 200 \<and> foot_len img = 120
             \<and> title_len img = 25 + 20 * int (length ms)
             \<and> width img = 2 * margins img + scale img * int (Max (length_t ` set ts))
             \<and> height img = int (length ts) * spacing img + title_len img + foot_len img)"
proof (cases "length ms \<le> 10")
  case True
  from MotifsImage_ok [OF assms True, of n] show ?thesis
    using True by auto
next
  case False
  then have "MotifsImage n ts ms = Inl IndexError"
    using MotifsImage_too_many [OF assms] by simp
  with False show ?thesis by simp
qed

theorem canvas_size_witness:
  "[transcript.extend (Transcript ''a'' ''ACGTACG'') (annotated.fields [] []),
    transcript.extend (Transcript ''b'' ''acgtacgtaa'') (annotated.fields [] [])] \<noteq> []
   \<and> map_sum id (\<lambda>img. (width img, height img))
       (MotifsImage ''fig''
          [transcript.extend (Transcript ''a'' ''ACGTACG'') (annotated.fields [] []),
           transcript.extend (Transcript ''b'' ''acgtacgtaa'') (annotated.fields [] [])]
          [Motif 0 ''TAG'', Motif 1 ''YYY''])
     = Inr (120, 585)"
proof -
  let ?ts = "[transcript.extend (Transcript ''a'' ''ACGTACG'') (annotated.fields [] []),
    transcript.extend (Transcript ''b'' ''acgtacgtaa'') (annotated.fields [] [])]"
  let ?ms = "[Motif 0 ''TAG'', Motif 1 ''YYY'']"
  have ne: "?ts \<noteq> []" by simp
  note th = canvas_size [OF ne, of "''fig''" ?ms]
  from th [THEN conjunct1] obtain img where i: "MotifsImage ''fig'' ?ts ?ms = Inr img"
    by auto
  from th [THEN conjunct2] i
  have w: "width img = 2 * margins img + scale img * int (Max (length_t ` set ?ts))"
    and h: "height img = int (length ?ts) * spacing img + title_len img + foot_len img"
    and c: "scale img = 2" "margins img = 50" "spacing img = 200" "foot_len img = 120"
      "title_len img = 25 + 20 * int (length ?ms)"
    by blast+
  have "Max (length_t ` set ?ts) = 10"
    by (simp add: Transcript_def transcript.extend_def)
  with w h c have "width img = 120" and "height img = 585"
    by simp_all
  with i ne show ?thesis by simp
qed

text \<open>
  C8. The palette has 10 entries. For a non-empty list of sequences and at most 10 motifs
  the constructor returns an image whose colour table is the result of assigning palette
  entry 0 to the first motif, entry 1 to the second and so on, a later assignment to the
  same raw sequence replacing an earlier one; for pairwise different raw sequences the
  table pairs the motifs, in input order, with the palette entries 0, 1, 2, ... With more
  than 10 motifs the constructor fails with \<open>IndexError\<close>, the error that indexing the
  palette out of range raises (the failure the specification calls \<open>TooManyMotifs\<close>); it
  does not wrap around.
\<close>

theorem color_assignment:
  assumes "ts \<noteq> []"
  shows "length palette = 10
       \<and> (length ms \<le> 10 \<longrightarrow>
            (\<exists>img. MotifsImage n ts ms = Inr img \<and> colors img = palette
               \<and> map_of (color_pairs img) = map_of (rev (zip (map seq ms) palette))
               \<and> (distinct (map seq ms) \<longrightarrow> color_pairs img = zip (map seq ms) palette)))
       \<and> (10 < length ms \<longrightarrow> MotifsImage n ts ms = Inl IndexError)"
proof (intro conjI impI)
  show "length palette = 10" by (rule length_palette)
  show "MotifsImage n ts ms = Inl IndexError" if "10 < length ms"
    using assms that by (rule MotifsImage_too_many)
  show "\<exists>img. MotifsImage n ts ms = Inr img \<and> colors img = palette
          \<and> map_of (color_pairs img) = map_of (rev (zip (map seq ms) palette))
          \<and> (distinct (map seq ms) \<longrightarrow> color_pairs img = zip (map seq ms) palette)"
    if le: "length ms \<le> 10"
  proof -
    from MotifsImage_ok [OF assms le, of n] obtain pairs img
      where p: "color_loop palette 0 ms [] = Inr pairs"
        and i: "MotifsImage n ts ms = Inr img"
        and c: "colors img = palette" "color_pairs img = pairs"
      by auto
    have k: "0 + length ms \<le> length palette"
      using le by (simp add: length_palette)
    from color_loop_ok [OF k, of "[]"] p
    have m: "map_of pairs = map_of (rev (zip (map seq ms) palette))"
      by simp
    have "pairs = zip (map seq ms) palette" if "distinct (map seq ms)"
      using color_loop_distinct [OF that _ k, of "[]"] p by simp
    with i c m show ?thesis by simp
  qed
qed

theorem color_assignment_witness:
  "[transcript.extend (Transcript ''a'' ''ACGT'') (annotated.fields [] [])] \<noteq> []
   \<and> map_sum id color_pairs
       (MotifsImage ''fig'' [transcript.extend (Transcript ''a'' ''ACGT'') (annotated.fields [] [])]
          [Motif 0 ''TAG'', Motif 1 ''YYY''])
     = Inr [(''TAG'', (0, 1/2, 0)), (''YYY'', (1, 0, 0))]
   \<and> MotifsImage ''fig'' [transcript.extend (Transcript ''a'' ''ACGT'') (annotated.fields [] [])]
          (map (\<lambda>i. Motif i ''A'') [0 ..< 11])
     = Inl IndexError"
proof -
  let ?ts = "[transcript.extend (Transcript ''a'' ''ACGT'') (annotated.fields [] [])]"
  let ?ms = "[Motif 0 ''TAG'', Motif 1 ''YYY'']"
  have ne: "?ts \<noteq> []" by simp
  have le: "length ?ms \<le> 10" by simp
  have d: "distinct (map seq ?ms)" by (simp add: Motif_def)
  from color_assignment [OF ne, of ?ms "''fig''", THEN conjunct2, THEN conjunct1, THEN mp, OF le] d
  obtain img where i: "MotifsImage ''fig'' ?ts ?ms = Inr img"
    and c: "color_pairs img = zip (map seq ?ms) palette"
    by blast
  have z: "zip (map seq ?ms) palette = [(''TAG'', (0, 1/2, 0)), (''YYY'', (1, 0, 0))]"
    by (simp add: Motif_def palette_def)
  have gt: "10 < length (map (\<lambda>i. Motif i ''A'') [0 ..< 11])" by simp
  from color_assignment [OF ne, of "map (\<lambda>i. Motif i ''A'') [0 ..< 11]" "''fig''",
      THEN conjunct2, THEN conjunct2, THEN mp, OF gt]
  have f: "MotifsImage ''fig'' ?ts (map (\<lambda>i. Motif i ''A'') [0 ..< 11]) = Inl IndexError" .
  from i c z f ne show ?thesis by simp
qed

section \<open>Axis ticks\<close>

text \<open>
  What holds of the ticks of every image: five ticks, evenly spaced from the left margin
  by \<open>tick_spacing\<close>, which is half the largest length rounded down; the labels are 0, the
  roundings of a quarter, a half and three quarters of the largest length, and the largest
  length; the last tick is at the right end of the drawable width exactly when the
  largest length is even.
\<close>

lemma ticks_of_image:
  assumes "MotifsImage n ts ms = Inr img"
  shows "length (ticklabels img) = 5"
    and "[x. Move_to x y \<leftarrow> add_ticks img] = map (\<lambda>i. margins img + int i * tick_spacing img) [0 ..< 5]"
    and "tick_spacing img = longest_len img div 2"
    and "ticklabels img = [''0'', str_int (round_div (longest_len img) 4),
           str_int (round_div (longest_len img) 2), str_int (round_div (longest_len img * 3) 4),
           str_int (longest_len img)]"
    and "width img - margins img = margins img + scale img * longest_len img"
    and "margins img + 4 * tick_spacing img = width img - margins img \<longleftrightarrow> even (longest_len img)"
proof -
  have ne: "ts \<noteq> []"
    using assms by (auto simp add: MotifsImage_empty)
  have le: "length ms \<le> 10"
    using assms MotifsImage_too_many [OF ne, of ms n] by (cases "length ms \<le> 10") auto
  from MotifsImage_ok [OF ne le, of n] assms obtain pairs where
    img: "img = \<lparr>name = n, transcripts = ts, motifs = ms, scale = 2, num_images = int (length ts),
       title_len = 25 + 20 * int (length ms), longest_len = int (Max (length_t ` set ts)),
       foot_len = 120, spacing = 200, margins = 50,
       width = 50 * 2 + int (Max (length_t ` set ts)) * 2,
       height = int (length ts) * 200 + (25 + 20 * int (length ms)) + 120,
       tick_spacing = (int (Max (length_t ` set ts)) * 2) div 4,
       ticklabels =
         [''0'', str_int (round_div (int (Max (length_t ` set ts))) 4),
          str_int (round_div (int (Max (length_t ` set ts))) 2),
          str_int (round_div (int (Max (length_t ` set ts)) * 3) 4),
          str_int (int (Max (length_t ` set ts)))],
       tickoffset = [0, 12, 12, 12, 15], colors = palette, color_pairs = pairs\<rparr>"
    by auto
  show "length (ticklabels img) = 5" by (simp add: img)
  then show "[x. Move_to x y \<leftarrow> add_ticks img] = map (\<lambda>i. margins img + int i * tick_spacing img) [0 ..< 5]"
    by (simp add: add_ticks_def upt_conv_Cons)
  show "tick_spacing img = longest_len img div 2" by (simp add: img)
  show "ticklabels img = [''0'', str_int (round_div (longest_len img) 4),
           str_int (round_div (longest_len img) 2), str_int (round_div (longest_len img * 3) 4),
           str_int (longest_len img)]"
    by (simp add: img)
  show "width img - margins img = margins img + scale img * longest_len img" by (simp add: img)
  show "margins img + 4 * tick_spacing img = width img - margins img \<longleftrightarrow> even (longest_len img)"
  proof -
    have h: "(2 * (k div 2) = k) = even k" for k :: int
      by presburger
    show ?thesis
      unfolding img by (simp add: h [of "int (Max (length_t ` set ts))"])
  qed
qed

text \<open>\<open>round_div n d\<close> is an integer nearest to \<open>n / d\<close>.\<close>

lemma round_div_nearest:
  assumes "0 < d"
  shows "\<bar>2 * (d * round_div n d - n)\<bar> \<le> d"
proof -
  define q r where "q = n div d" and "r = n mod d"
  have n: "n = d * q + r" by (simp add: q_def r_def)
  have r: "0 \<le> r" "r < d" using assms by (simp_all add: r_def)
  have e: "d * (q + 1) = d * q + d" by (simp add: algebra_simps)
  consider "2 * r < d" | "d < 2 * r" | "2 * r = d" by linarith
  then show ?thesis
  proof cases
    case 1
    then have "round_div n d = q"
      by (simp add: round_div_def Let_def q_def r_def)
    with n r 1 show ?thesis by simp
  next
    case 2
    then have "round_div n d = q + 1"
      by (simp add: round_div_def Let_def q_def r_def)
    with n r 2 e show ?thesis by simp
  next
    case 3
    then have "round_div n d = q \<or> round_div n d = q + 1"
      by (simp add: round_div_def Let_def q_def r_def)
    with n r 3 e show ?thesis by auto
  qed
qed

text \<open>
  C7 at a single sequence of length 1: \<open>tick_spacing\<close> is \<open>(1 * 2) // 4 = 0\<close>, so the five
  ticks are all drawn at x = 50, the left margin, while the sequence line ends at x = 52,
  the right end of the drawable width; the last tick carries the label 1.
\<close>

theorem last_tick_short:
  "find_motifs (Transcript ''s'' ''A'') [] =
     Some (transcript.extend (Transcript ''s'' ''A'') (annotated.fields [] [(1, [])]))
   \<and> map_sum id (\<lambda>img. (longest_len img, tick_spacing img, ticklabels img,
                          [x. Move_to x y \<leftarrow> add_ticks img], [x. Line_to x y \<leftarrow> add_seqlines img],
                          width img - margins img))
       (MotifsImage ''fig'' [transcript.extend (Transcript ''s'' ''A'') (annotated.fields [] [(1, [])])] [])
     = Inr (1, 0, [''0'', ''0'', ''0'', ''1'', ''1''], [50, 50, 50, 50, 50], [52], 52)"
  by (simp add: find_motifs_def MotifsImage_def max_key_def Transcript_def exon_pattern_def
      transcript.extend_def annotated.fields_def round_div_def str_int_def str_nat.simps [of 0]
      str_nat.simps [of "Suc 0"] add_ticks_def add_seqlines_def upt_conv_Cons)

section \<open>Every code of the table matches itself\<close>

lemma upper_char_id: "c \<notin> set ''abcdefghijklmnopqrstuvwxyz'' \<Longrightarrow> upper_char c = c"
  by (simp add: upper_char_def)
lemma key_cases:
  assumes "ambig_nucleotides c = Some r"
  shows "c \<in> set ''NRYKMSWBDHVUT''"
  using ambig_cases [OF assms] by auto
lemma key_upper:
  assumes "ambig_nucleotides c = Some r"
  shows "upper [c] = [c]"
proof -
  have "c \<notin> set ''abcdefghijklmnopqrstuvwxyz''"
    using key_cases [OF assms] by auto
  then show ?thesis by (simp add: upper_def upper_char_id del: set_simps)
qed
lemma key_not_special:
  assumes "ambig_nucleotides c = Some r"
  shows "c \<notin> set re_special"
  using key_cases [OF assms] by (auto simp add: re_special_def)

lemma code_matches_itself:
  assumes "ambig_nucleotides c = Some r"
  shows "char_matches c c"
  using ambig_cases [OF assms] assms by (auto simp add: char_matches_def)

lemma code_found_on_itself:
  assumes "ambig_nucleotides c = Some r"
  shows "map_option position_motif (find_motifs (Transcript rn [c]) [Motif i [c]]) = Some [(1, [[c]])]"
proof -
  note u = key_upper [OF assms]
  have p: "\<forall>m\<in>set [Motif i [c]]. plain_motif m"
    using key_not_special [OF assms] by (simp add: plain_Motif)
  have o: "filter (occurs_at [c] [c]) [1 ..< length [c] + 2] = [1]"
    using code_matches_itself [OF assms] by (simp add: occurs_at_def u)
  have sq: "seq (Motif i [c]) = [c]" "sequence (Transcript rn [c]) = [c]"
    by (simp_all add: Motif_def Transcript_def)
  show ?thesis
    unfolding find_motifs_plain [OF p] option.map annotated_sel fold_simps sq
      occurrence_ranges_def o
    by (simp add: labels_loop_eq sq)
qed

text \<open>
  For every code of the table but H, the class is the code itself together with the bases
  the code stands for in the IUPAC code.
\<close>

lemma classes_are_iupac_except_H:
  "list_all (\<lambda>c. case (ambig_nucleotides c, iupac_bases c) of
       (Some r, Some bs) \<Rightarrow> set (butlast (tl r)) = insert c (set bs) | _ \<Rightarrow> False) ''NRYKMSWBDVUT''"
  by (auto simp add: ambig_nucleotides_def iupac_bases_def)

end
